theory Spec2Isabelle
  imports Complex_Main "HOL-Library.Word"
begin

unbundle bit_operations_syntax

section \<open>Data model of \<open>encryption.py\<close>\<close>

text \<open>
  Python \<open>bytes\<close> are lists of 8-bit words.  Exceptions are values: the class of the
  exception with the message it is raised with, in the source or in the library the source
  calls.
\<close>

type_synonym byte = "8 word"
type_synonym bytes = "byte list"

datatype error =
    TypeError string
  | ValueError string
  | NotImplementedError string

text \<open>
  What a caller may hand to the constructor where the annotation asks for \<open>bytes\<close>:
  Python does not enforce the annotation, so the argument is any object.
\<close>

datatype pyobj =
    PyBytes bytes
  | PyStr string
  | PyInt int
  | PyNone

datatype backend = DefaultBackend

record SLE =
  password :: bytes
  backend :: backend

text \<open>A bytes literal \<open>b"..."\<close> of ASCII characters.\<close>

definition bytes_literal :: "string \<Rightarrow> bytes" where
  "bytes_literal s = map (\<lambda>c. of_nat (of_char c)) s"

definition MAGIC_HEADER :: bytes where
  "MAGIC_HEADER = bytes_literal ''__SLE__''"

definition default_backend :: backend where
  "default_backend = DefaultBackend"

text \<open>\<open>data.startswith(prefix)\<close> and the slice \<open>data[a:b]\<close> for \<open>0 \<le> a \<le> b\<close>.\<close>

definition startswith :: "bytes \<Rightarrow> bytes \<Rightarrow> bool" where
  "startswith xs p = (take (length p) xs = p)"

definition slice :: "nat \<Rightarrow> nat \<Rightarrow> bytes \<Rightarrow> bytes" where
  "slice a b xs = take (b - a) (drop a xs)"

text \<open>Cutting a buffer into \<open>n\<close> consecutive pieces of \<open>k\<close> elements.\<close>

primrec chunks :: "nat \<Rightarrow> nat \<Rightarrow> 'a list \<Rightarrow> 'a list list" where
  "chunks k 0 xs = []"
| "chunks k (Suc n) xs = take k xs # chunks k n (drop k xs)"

section \<open>The operating system's random source\<close>

text \<open>
  \<open>os.urandom(n)\<close> reads \<open>n\<close> bytes from the system's source.  The source is the
  sequence of bytes it will still deliver; a source that cannot deliver \<open>n\<close> bytes is
  not functional, and the call raises.
\<close>

definition os_urandom :: "nat \<Rightarrow> bytes \<Rightarrow> error + (bytes \<times> bytes)" where
  "os_urandom n src =
     (if length src < n then Inl (NotImplementedError ''no randomness source'')
      else Inr (take n src, drop n src))"

section \<open>The library's primitives\<close>

subsection \<open>SHA-256 (FIPS 180-4), behind \<open>hashes.SHA256()\<close>\<close>

type_synonym word32 = "32 word"

definition be32_of_bytes :: "bytes \<Rightarrow> word32" where
  "be32_of_bytes bs = foldl (\<lambda>w b. push_bit 8 w OR ucast b) 0 (take 4 bs)"

definition bytes_of_be32 :: "word32 \<Rightarrow> bytes" where
  "bytes_of_be32 w = [ucast (drop_bit 24 w), ucast (drop_bit 16 w), ucast (drop_bit 8 w), ucast w]"

definition bytes_of_be64 :: "64 word \<Rightarrow> bytes" where
  "bytes_of_be64 w = map (\<lambda>i. ucast (drop_bit (8 * (7 - i)) w)) [0..<8]"

definition Ch :: "word32 \<Rightarrow> word32 \<Rightarrow> word32 \<Rightarrow> word32" where
  "Ch x y z = (x AND y) XOR (NOT x AND z)"

definition Maj :: "word32 \<Rightarrow> word32 \<Rightarrow> word32 \<Rightarrow> word32" where
  "Maj x y z = (x AND y) XOR (x AND z) XOR (y AND z)"

definition Sigma0 :: "word32 \<Rightarrow> word32" where
  "Sigma0 x = word_rotr 2 x XOR word_rotr 13 x XOR word_rotr 22 x"

definition Sigma1 :: "word32 \<Rightarrow> word32" where
  "Sigma1 x = word_rotr 6 x XOR word_rotr 11 x XOR word_rotr 25 x"

definition sigma0 :: "word32 \<Rightarrow> word32" where
  "sigma0 x = word_rotr 7 x XOR word_rotr 18 x XOR drop_bit 3 x"

definition sigma1 :: "word32 \<Rightarrow> word32" where
  "sigma1 x = word_rotr 17 x XOR word_rotr 19 x XOR drop_bit 10 x"

text \<open>
  The round constants (the first 32 bits of the fractional parts of the cube roots of the
  first 64 primes) and the initial hash value (of the square roots of the first 8), in
  decimal.
\<close>

definition sha256_K :: "word32 list" where
  "sha256_K =
     [1116352408, 1899447441, 3049323471, 3921009573, 961987163, 1508970993,
      2453635748, 2870763221, 3624381080, 310598401, 607225278, 1426881987,
      1925078388, 2162078206, 2614888103, 3248222580, 3835390401, 4022224774,
      264347078, 604807628, 770255983, 1249150122, 1555081692, 1996064986,
      2554220882, 2821834349, 2952996808, 3210313671, 3336571891, 3584528711,
      113926993, 338241895, 666307205, 773529912, 1294757372, 1396182291,
      1695183700, 1986661051, 2177026350, 2456956037, 2730485921, 2820302411,
      3259730800, 3345764771, 3516065817, 3600352804, 4094571909, 275423344,
      430227734, 506948616, 659060556, 883997877, 958139571, 1322822218,
      1537002063, 1747873779, 1955562222, 2024104815, 2227730452, 2361852424,
      2428436474, 2756734187, 3204031479, 3329325298]"

definition sha256_H0 :: "word32 list" where
  "sha256_H0 =
     [1779033703, 3144134277, 1013904242, 2773480762,
      1359893119, 2600822924, 528734635, 1541459225]"

text \<open>Message padding: a 1 bit, zero bits up to 448 modulo 512, the bit length on 64 bits.\<close>

definition sha256_pad :: "bytes \<Rightarrow> bytes" where
  "sha256_pad m =
     m @ [128] @ replicate ((119 - length m mod 64) mod 64) 0 @ bytes_of_be64 (of_nat (8 * length m))"

text \<open>The message schedule: 16 words of the block, extended to 64.\<close>

primrec schedule :: "nat \<Rightarrow> word32 list \<Rightarrow> word32 list" where
  "schedule 0 w = w"
| "schedule (Suc n) w =
     schedule n
       (w @ [sigma1 (w ! (length w - 2)) + w ! (length w - 7)
             + sigma0 (w ! (length w - 15)) + w ! (length w - 16)])"

fun sha256_round :: "word32 list \<Rightarrow> word32 \<times> word32 \<Rightarrow> word32 list" where
  "sha256_round [a, b, c, d, e, f, g, h] (k, w) =
     (let t1 = h + Sigma1 e + Ch e f g + k + w;
          t2 = Sigma0 a + Maj a b c
      in [t1 + t2, a, b, c, d + t1, e, f, g])"
| "sha256_round s _ = s"

definition sha256_compress :: "word32 list \<Rightarrow> bytes \<Rightarrow> word32 list" where
  "sha256_compress hs block =
     (let w = schedule 48 (map be32_of_bytes (chunks 4 16 block))
      in map2 (+) hs (foldl sha256_round hs (zip sha256_K w)))"

definition sha256 :: "bytes \<Rightarrow> bytes" where
  "sha256 m =
     (let p = sha256_pad m
      in concat (map bytes_of_be32 (foldl sha256_compress sha256_H0 (chunks 64 (length p div 64) p))))"

subsection \<open>HMAC (RFC 2104) and PBKDF2 (RFC 8018), behind \<open>PBKDF2HMAC\<close>\<close>

datatype hash_algorithm = SHA256

fun digest :: "hash_algorithm \<Rightarrow> bytes \<Rightarrow> bytes" where
  "digest SHA256 m = sha256 m"

fun digest_size :: "hash_algorithm \<Rightarrow> nat" where
  "digest_size SHA256 = 32"

fun block_size :: "hash_algorithm \<Rightarrow> nat" where
  "block_size SHA256 = 64"

definition hmac :: "hash_algorithm \<Rightarrow> bytes \<Rightarrow> bytes \<Rightarrow> bytes" where
  "hmac alg key msg =
     (let k0 = (if block_size alg < length key then digest alg key else key);
          k = k0 @ replicate (block_size alg - length k0) 0
      in digest alg (map (\<lambda>b. b XOR 92) k @ digest alg (map (\<lambda>b. b XOR 54) k @ msg)))"

text \<open>
  Block \<open>i\<close> of the derived key is \<open>U\<^sub>1 XOR ... XOR U\<^sub>c\<close>, where \<open>U\<^sub>1\<close> is the HMAC of the
  salt followed by \<open>i\<close> on 32 bits and each next \<open>U\<close> is the HMAC of the one before, all
  under the password; the key is the first \<open>dklen\<close> bytes of the blocks.
\<close>

primrec pbkdf2_iter :: "hash_algorithm \<Rightarrow> bytes \<Rightarrow> nat \<Rightarrow> bytes \<Rightarrow> bytes \<Rightarrow> bytes" where
  "pbkdf2_iter alg pw 0 u t = t"
| "pbkdf2_iter alg pw (Suc n) u t =
     (let u' = hmac alg pw u in pbkdf2_iter alg pw n u' (map2 (XOR) t u'))"

definition pbkdf2_F :: "hash_algorithm \<Rightarrow> bytes \<Rightarrow> bytes \<Rightarrow> nat \<Rightarrow> nat \<Rightarrow> bytes" where
  "pbkdf2_F alg pw slt c i =
     (let u1 = hmac alg pw (slt @ bytes_of_be32 (of_nat i))
      in pbkdf2_iter alg pw (c - 1) u1 u1)"

definition pbkdf2_hmac :: "hash_algorithm \<Rightarrow> bytes \<Rightarrow> bytes \<Rightarrow> nat \<Rightarrow> nat \<Rightarrow> bytes" where
  "pbkdf2_hmac alg pw slt c dklen =
     take dklen
       (concat (map (pbkdf2_F alg pw slt c)
          [1..<Suc ((dklen + digest_size alg - 1) div digest_size alg)]))"

text \<open>
  The object \<open>PBKDF2HMAC(algorithm, length, salt, iterations, backend)\<close> and its method
  \<open>derive(key_material)\<close>.
\<close>

record PBKDF2HMAC =
  kdf_algorithm :: hash_algorithm
  kdf_length :: nat
  kdf_salt :: bytes
  kdf_iterations :: nat

definition derive :: "PBKDF2HMAC \<Rightarrow> bytes \<Rightarrow> bytes" where
  "derive kdf key_material =
     pbkdf2_hmac (kdf_algorithm kdf) key_material (kdf_salt kdf) (kdf_iterations kdf) (kdf_length kdf)"

subsection \<open>PKCS7 padding, behind \<open>padding.PKCS7(128)\<close>\<close>

text \<open>
  The padder and the unpadder keep a buffer: \<open>update\<close> returns the blocks that are
  finished and keeps the rest, \<open>finalize\<close> works on what is kept.  Each function takes the
  buffer and returns the new buffer with the bytes it hands back.  The unpadder holds back
  one block more than the padder (\<open>max(len // 16 - 1, 0)\<close>; subtraction on \<open>nat\<close> stops
  at 0 likewise).
\<close>

definition padder_update :: "bytes \<Rightarrow> bytes \<Rightarrow> bytes \<times> bytes" where
  "padder_update buffer chunk =
     (let b = buffer @ chunk; finished_blocks = length b div 16
      in (drop (finished_blocks * 16) b, take (finished_blocks * 16) b))"

definition padder_finalize :: "bytes \<Rightarrow> bytes" where
  "padder_finalize buffer =
     (let pad_size = 16 - length buffer in buffer @ replicate pad_size (of_nat pad_size))"

definition unpadder_update :: "bytes \<Rightarrow> bytes \<Rightarrow> bytes \<times> bytes" where
  "unpadder_update buffer chunk =
     (let b = buffer @ chunk; finished_blocks = length b div 16 - 1
      in (drop (finished_blocks * 16) b, take (finished_blocks * 16) b))"

definition check_pkcs7_padding :: "bytes \<Rightarrow> bool" where
  "check_pkcs7_padding buffer =
     (let pad_size = unat (last buffer)
      in pad_size \<noteq> 0 \<and> pad_size \<le> 16
         \<and> list_all (\<lambda>b. b = last buffer) (drop (16 - pad_size) buffer))"

definition unpadder_finalize :: "bytes \<Rightarrow> error + bytes" where
  "unpadder_finalize buffer =
     (if length buffer \<noteq> 16 then Inl (ValueError ''Invalid padding bytes.'')
      else if \<not> check_pkcs7_padding buffer then Inl (ValueError ''Invalid padding bytes.'')
      else Inr (take (length buffer - unat (last buffer)) buffer))"

text \<open>What \<open>padder.update(m) + padder.finalize()\<close> amounts to.\<close>

definition pkcs7_pad :: "bytes \<Rightarrow> bytes" where
  "pkcs7_pad m = m @ replicate (16 - length m mod 16) (of_nat (16 - length m mod 16))"

subsection \<open>AES (FIPS 197), behind \<open>algorithms.AES(key)\<close>\<close>

definition xor_bytes :: "bytes \<Rightarrow> bytes \<Rightarrow> bytes" where
  "xor_bytes xs ys = map2 (XOR) xs ys"

text \<open>The S-box and its inverse, in decimal, one row of the standard's table per line.\<close>

definition sbox_table :: "nat list" where
  "sbox_table =
     [99, 124, 119, 123, 242, 107, 111, 197, 48, 1, 103, 43, 254, 215, 171, 118,
      202, 130, 201, 125, 250, 89, 71, 240, 173, 212, 162, 175, 156, 164, 114, 192,
      183, 253, 147, 38, 54, 63, 247, 204, 52, 165, 229, 241, 113, 216, 49, 21,
      4, 199, 35, 195, 24, 150, 5, 154, 7, 18, 128, 226, 235, 39, 178, 117,
      9, 131, 44, 26, 27, 110, 90, 160, 82, 59, 214, 179, 41, 227, 47, 132,
      83, 209, 0, 237, 32, 252, 177, 91, 106, 203, 190, 57, 74, 76, 88, 207,
      208, 239, 170, 251, 67, 77, 51, 133, 69, 249, 2, 127, 80, 60, 159, 168,
      81, 163, 64, 143, 146, 157, 56, 245, 188, 182, 218, 33, 16, 255, 243, 210,
      205, 12, 19, 236, 95, 151, 68, 23, 196, 167, 126, 61, 100, 93, 25, 115,
      96, 129, 79, 220, 34, 42, 144, 136, 70, 238, 184, 20, 222, 94, 11, 219,
      224, 50, 58, 10, 73, 6, 36, 92, 194, 211, 172, 98, 145, 149, 228, 121,
      231, 200, 55, 109, 141, 213, 78, 169, 108, 86, 244, 234, 101, 122, 174, 8,
      186, 120, 37, 46, 28, 166, 180, 198, 232, 221, 116, 31, 75, 189, 139, 138,
      112, 62, 181, 102, 72, 3, 246, 14, 97, 53, 87, 185, 134, 193, 29, 158,
      225, 248, 152, 17, 105, 217, 142, 148, 155, 30, 135, 233, 206, 85, 40, 223,
      140, 161, 137, 13, 191, 230, 66, 104, 65, 153, 45, 15, 176, 84, 187, 22]"

definition inv_sbox_table :: "nat list" where
  "inv_sbox_table =
     [82, 9, 106, 213, 48, 54, 165, 56, 191, 64, 163, 158, 129, 243, 215, 251,
      124, 227, 57, 130, 155, 47, 255, 135, 52, 142, 67, 68, 196, 222, 233, 203,
      84, 123, 148, 50, 166, 194, 35, 61, 238, 76, 149, 11, 66, 250, 195, 78,
      8, 46, 161, 102, 40, 217, 36, 178, 118, 91, 162, 73, 109, 139, 209, 37,
      114, 248, 246, 100, 134, 104, 152, 22, 212, 164, 92, 204, 93, 101, 182, 146,
      108, 112, 72, 80, 253, 237, 185, 218, 94, 21, 70, 87, 167, 141, 157, 132,
      144, 216, 171, 0, 140, 188, 211, 10, 247, 228, 88, 5, 184, 179, 69, 6,
      208, 44, 30, 143, 202, 63, 15, 2, 193, 175, 189, 3, 1, 19, 138, 107,
      58, 145, 17, 65, 79, 103, 220, 234, 151, 242, 207, 206, 240, 180, 230, 115,
      150, 172, 116, 34, 231, 173, 53, 133, 226, 249, 55, 232, 28, 117, 223, 110,
      71, 241, 26, 113, 29, 41, 197, 137, 111, 183, 98, 14, 170, 24, 190, 27,
      252, 86, 62, 75, 198, 210, 121, 32, 154, 219, 192, 254, 120, 205, 90, 244,
      31, 221, 168, 51, 136, 7, 199, 49, 177, 18, 16, 89, 39, 128, 236, 95,
      96, 81, 127, 169, 25, 181, 74, 13, 45, 229, 122, 159, 147, 201, 156, 239,
      160, 224, 59, 77, 174, 42, 245, 176, 200, 235, 187, 60, 131, 83, 153, 97,
      23, 43, 4, 126, 186, 119, 214, 38, 225, 105, 20, 99, 85, 33, 12, 125]"

definition sub_byte :: "byte \<Rightarrow> byte" where
  "sub_byte b = of_nat (sbox_table ! unat b)"

definition inv_sub_byte :: "byte \<Rightarrow> byte" where
  "inv_sub_byte b = of_nat (inv_sbox_table ! unat b)"

text \<open>Multiplication by \<open>x\<close> in GF(2^8) modulo \<open>x^8 + x^4 + x^3 + x + 1\<close>.\<close>

definition xtime :: "byte \<Rightarrow> byte" where
  "xtime b = (if bit b 7 then push_bit 1 b XOR 27 else push_bit 1 b)"

definition sub_bytes :: "bytes \<Rightarrow> bytes" where
  "sub_bytes s = map sub_byte s"

definition inv_sub_bytes :: "bytes \<Rightarrow> bytes" where
  "inv_sub_bytes s = map inv_sub_byte s"

text \<open>The state is held column by column: byte \<open>r + 4 * c\<close> is row \<open>r\<close> of column \<open>c\<close>.\<close>

definition shift_rows :: "bytes \<Rightarrow> bytes" where
  "shift_rows s = map (\<lambda>i. s ! i) [0, 5, 10, 15, 4, 9, 14, 3, 8, 13, 2, 7, 12, 1, 6, 11]"

definition inv_shift_rows :: "bytes \<Rightarrow> bytes" where
  "inv_shift_rows s = map (\<lambda>i. s ! i) [0, 13, 10, 7, 4, 1, 14, 11, 8, 5, 2, 15, 12, 9, 6, 3]"

definition mul2 :: "byte \<Rightarrow> byte" where "mul2 b = xtime b"
definition mul3 :: "byte \<Rightarrow> byte" where "mul3 b = xtime b XOR b"
definition mul9 :: "byte \<Rightarrow> byte" where "mul9 b = xtime (xtime (xtime b)) XOR b"
definition mul11 :: "byte \<Rightarrow> byte" where "mul11 b = xtime (xtime (xtime b)) XOR xtime b XOR b"
definition mul13 :: "byte \<Rightarrow> byte" where "mul13 b = xtime (xtime (xtime b)) XOR xtime (xtime b) XOR b"
definition mul14 :: "byte \<Rightarrow> byte" where "mul14 b = xtime (xtime (xtime b)) XOR xtime (xtime b) XOR xtime b"

fun mix_column :: "bytes \<Rightarrow> bytes" where
  "mix_column [a, b, c, d] =
     [mul2 a XOR mul3 b XOR c XOR d,
      a XOR mul2 b XOR mul3 c XOR d,
      a XOR b XOR mul2 c XOR mul3 d,
      mul3 a XOR b XOR c XOR mul2 d]"
| "mix_column col = col"

fun inv_mix_column :: "bytes \<Rightarrow> bytes" where
  "inv_mix_column [a, b, c, d] =
     [mul14 a XOR mul11 b XOR mul13 c XOR mul9 d,
      mul9 a XOR mul14 b XOR mul11 c XOR mul13 d,
      mul13 a XOR mul9 b XOR mul14 c XOR mul11 d,
      mul11 a XOR mul13 b XOR mul9 c XOR mul14 d]"
| "inv_mix_column col = col"

definition mix_columns :: "bytes \<Rightarrow> bytes" where
  "mix_columns s = concat (map mix_column (chunks 4 4 s))"

definition inv_mix_columns :: "bytes \<Rightarrow> bytes" where
  "inv_mix_columns s = concat (map inv_mix_column (chunks 4 4 s))"

definition add_round_key :: "bytes \<Rightarrow> bytes \<Rightarrow> bytes" where
  "add_round_key k s = xor_bytes s k"

subsubsection \<open>Key expansion\<close>

fun rot_word :: "bytes \<Rightarrow> bytes" where
  "rot_word (a # rest) = rest @ [a]"
| "rot_word [] = []"

definition rcon :: "nat \<Rightarrow> bytes" where
  "rcon i = [(xtime ^^ (i - 1)) 1, 0, 0, 0]"

primrec expand :: "nat \<Rightarrow> nat \<Rightarrow> bytes list \<Rightarrow> bytes list" where
  "expand nk 0 w = w"
| "expand nk (Suc n) w =
     (let i = length w;
          prev = w ! (i - 1);
          temp = (if i mod nk = 0 then xor_bytes (sub_bytes (rot_word prev)) (rcon (i div nk))
                  else if 6 < nk \<and> i mod nk = 4 then sub_bytes prev
                  else prev)
      in expand nk n (w @ [xor_bytes (w ! (i - nk)) temp]))"

definition key_expansion :: "bytes \<Rightarrow> bytes list" where
  "key_expansion key =
     (let nk = length key div 4; nr = nk + 6
      in chunks 16 (nr + 1) (concat (expand nk (4 * (nr + 1) - nk) (chunks 4 nk key))))"

subsubsection \<open>Cipher and inverse cipher\<close>

definition aes_round :: "bytes \<Rightarrow> bytes \<Rightarrow> bytes" where
  "aes_round s k = add_round_key k (mix_columns (shift_rows (sub_bytes s)))"

definition inv_aes_round :: "bytes \<Rightarrow> bytes \<Rightarrow> bytes" where
  "inv_aes_round s k = inv_mix_columns (add_round_key k (inv_sub_bytes (inv_shift_rows s)))"

definition aes_cipher :: "bytes list \<Rightarrow> bytes \<Rightarrow> bytes" where
  "aes_cipher rks blk =
     (let s = foldl aes_round (add_round_key (hd rks) blk) (butlast (tl rks))
      in add_round_key (last rks) (shift_rows (sub_bytes s)))"

definition aes_inv_cipher :: "bytes list \<Rightarrow> bytes \<Rightarrow> bytes" where
  "aes_inv_cipher rks blk =
     (let s = foldl inv_aes_round (add_round_key (last rks) blk) (rev (butlast (tl rks)))
      in add_round_key (hd rks) (inv_sub_bytes (inv_shift_rows s)))"

definition aes_encrypt_block :: "bytes \<Rightarrow> bytes \<Rightarrow> bytes" where
  "aes_encrypt_block key blk = aes_cipher (key_expansion key) blk"

definition aes_decrypt_block :: "bytes \<Rightarrow> bytes \<Rightarrow> bytes" where
  "aes_decrypt_block key blk = aes_inv_cipher (key_expansion key) blk"

subsection \<open>CBC mode and the \<open>Cipher\<close> object\<close>

fun cbc_encrypt_blocks :: "(bytes \<Rightarrow> bytes) \<Rightarrow> bytes \<Rightarrow> bytes list \<Rightarrow> bytes list" where
  "cbc_encrypt_blocks E prev [] = []"
| "cbc_encrypt_blocks E prev (p # ps) =
     (let c = E (xor_bytes p prev) in c # cbc_encrypt_blocks E c ps)"

fun cbc_decrypt_blocks :: "(bytes \<Rightarrow> bytes) \<Rightarrow> bytes \<Rightarrow> bytes list \<Rightarrow> bytes list" where
  "cbc_decrypt_blocks D prev [] = []"
| "cbc_decrypt_blocks D prev (c # cs) = xor_bytes (D c) prev # cbc_decrypt_blocks D c cs"

text \<open>
  \<open>Cipher(algorithms.AES(key), modes.CBC(iv), backend)\<close>: the key must have 128, 192 or
  256 bits and the initialization vector one block.  (The library's messages also print the
  offending size.)
\<close>

record Cipher =
  cipher_key :: bytes
  cipher_iv :: bytes

definition Cipher_AES_CBC :: "bytes \<Rightarrow> bytes \<Rightarrow> error + Cipher" where
  "Cipher_AES_CBC key iv =
     (if length key \<notin> {16, 24, 32} then Inl (ValueError ''Invalid key size for AES.'')
      else if length iv \<noteq> 16 then Inl (ValueError ''Invalid IV size for CBC.'')
      else Inr \<lparr> cipher_key = key, cipher_iv = iv \<rparr>)"

text \<open>
  An encryptor or decryptor processes the whole blocks of what \<open>update\<close> is given and
  keeps the bytes short of a block; \<open>finalize\<close> raises when such bytes are left over,
  and returns nothing otherwise.  Both are called once here, so \<open>cipher_finalize\<close> takes
  what \<open>update\<close> was given.
\<close>

definition encryptor_update :: "Cipher \<Rightarrow> bytes \<Rightarrow> bytes" where
  "encryptor_update c chunk =
     concat (cbc_encrypt_blocks (aes_encrypt_block (cipher_key c)) (cipher_iv c)
       (chunks 16 (length chunk div 16) chunk))"

definition decryptor_update :: "Cipher \<Rightarrow> bytes \<Rightarrow> bytes" where
  "decryptor_update c chunk =
     concat (cbc_decrypt_blocks (aes_decrypt_block (cipher_key c)) (cipher_iv c)
       (chunks 16 (length chunk div 16) chunk))"

definition cipher_finalize :: "bytes \<Rightarrow> error + bytes" where
  "cipher_finalize chunk =
     (if length chunk mod 16 \<noteq> 0
      then Inl (ValueError
        ''The length of the provided data is not a multiple of the block length.'')
      else Inr [])"

section \<open>The class \<open>SLE\<close>\<close>

text \<open>
  \<open>SLE.__init__\<close>: \<open>isinstance(password, bytes)\<close> is checked first; the two fields are
  set only when it holds.
\<close>

definition isinstance_bytes :: "pyobj \<Rightarrow> bool" where
  "isinstance_bytes v = (case v of PyBytes _ \<Rightarrow> True | _ \<Rightarrow> False)"

definition SLE_init :: "pyobj \<Rightarrow> error + SLE" where
  "SLE_init pw =
     (case pw of
        PyBytes b \<Rightarrow> Inr \<lparr> password = b, backend = default_backend \<rparr>
      | _ \<Rightarrow> Inl (TypeError ''Password must be of type bytes.''))"

text \<open>\<open>SLE._derive_key\<close>.\<close>

definition derive_key :: "SLE \<Rightarrow> bytes \<Rightarrow> error + bytes" where
  "derive_key self salt =
     (if length salt \<noteq> 16 then Inl (ValueError ''Salt must be exactly 16 bytes.'')
      else
        let kdf = \<lparr> kdf_algorithm = SHA256, kdf_length = 32, kdf_salt = salt,
                    kdf_iterations = 100000 \<rparr>
        in Inr (derive kdf (password self)))"

text \<open>
  \<open>SLE.encrypt\<close>.  The random source is an argument, and what is left of it is returned
  with the blob.
\<close>

definition encrypt :: "SLE \<Rightarrow> bytes \<Rightarrow> bytes \<Rightarrow> error + (bytes \<times> bytes)" where
  "encrypt self data src =
     (case os_urandom 16 src of Inl e \<Rightarrow> Inl e | Inr (salt, src1) \<Rightarrow>
      case os_urandom 16 src1 of Inl e \<Rightarrow> Inl e | Inr (iv, src2) \<Rightarrow>
      case derive_key self salt of Inl e \<Rightarrow> Inl e | Inr key \<Rightarrow>
      let (buffer, finished) = padder_update [] (MAGIC_HEADER @ data);
          padded_data = finished @ padder_finalize buffer
      in
      case Cipher_AES_CBC key iv of Inl e \<Rightarrow> Inl e | Inr cipher \<Rightarrow>
      let updated = encryptor_update cipher padded_data
      in
      case cipher_finalize padded_data of Inl e \<Rightarrow> Inl e | Inr final \<Rightarrow>
      let encrypted = updated @ final
      in Inr (salt @ iv @ encrypted, src2))"

text \<open>\<open>SLE.decrypt\<close>.\<close>

definition decrypt :: "SLE \<Rightarrow> bytes \<Rightarrow> error + bytes" where
  "decrypt self encrypted_data =
     (if length encrypted_data < 32
      then Inl (ValueError ''Encrypted data is too short or corrupted.'')
      else
        let salt = slice 0 16 encrypted_data;
            iv = slice 16 32 encrypted_data;
            encrypted = drop 32 encrypted_data
        in
        case derive_key self salt of Inl e \<Rightarrow> Inl e | Inr key \<Rightarrow>
        case Cipher_AES_CBC key iv of Inl e \<Rightarrow> Inl e | Inr cipher \<Rightarrow>
        let updated = decryptor_update cipher encrypted
        in
        case cipher_finalize encrypted of Inl e \<Rightarrow> Inl e | Inr final \<Rightarrow>
        let padded_data = updated @ final;
            (buffer, finished) = unpadder_update [] padded_data
        in
        case unpadder_finalize buffer of Inl e \<Rightarrow> Inl e | Inr rest \<Rightarrow>
        let data = finished @ rest
        in
        if \<not> startswith data MAGIC_HEADER
        then Inl (ValueError ''Invalid password or data corrupted.'')
        else Inr (drop (length MAGIC_HEADER) data))"

text \<open>
  The part of \<open>SLE.decrypt\<close> up to the removal of the padding (its lines 86 to 100): what
  it hands to the marker check.
\<close>

definition decrypt_unpadded :: "SLE \<Rightarrow> bytes \<Rightarrow> error + bytes" where
  "decrypt_unpadded self encrypted_data =
     (if length encrypted_data < 32
      then Inl (ValueError ''Encrypted data is too short or corrupted.'')
      else
        let salt = slice 0 16 encrypted_data;
            iv = slice 16 32 encrypted_data;
            encrypted = drop 32 encrypted_data
        in
        case derive_key self salt of Inl e \<Rightarrow> Inl e | Inr key \<Rightarrow>
        case Cipher_AES_CBC key iv of Inl e \<Rightarrow> Inl e | Inr cipher \<Rightarrow>
        let updated = decryptor_update cipher encrypted
        in
        case cipher_finalize encrypted of Inl e \<Rightarrow> Inl e | Inr final \<Rightarrow>
        let padded_data = updated @ final;
            (buffer, finished) = unpadder_update [] padded_data
        in
        case unpadder_finalize buffer of Inl e \<Rightarrow> Inl e | Inr rest \<Rightarrow>
        Inr (finished @ rest))"

section \<open>The specification's names for the failures\<close>

text \<open>
  The source raises \<open>ValueError\<close> throughout; the specification tells the failures apart
  by where they arise.  Each of its names stands for the exception raised there.
\<close>

definition InvalidSaltLength :: error where
  "InvalidSaltLength = ValueError ''Salt must be exactly 16 bytes.''"

definition BlobTooShort :: error where
  "BlobTooShort = ValueError ''Encrypted data is too short or corrupted.''"

definition NotBlockMultiple :: error where
  "NotBlockMultiple =
     ValueError ''The length of the provided data is not a multiple of the block length.''"

definition MalformedBlob :: "error set" where
  "MalformedBlob = {BlobTooShort, NotBlockMultiple}"

definition InvalidPadding :: error where
  "InvalidPadding = ValueError ''Invalid padding bytes.''"

definition AuthenticationFailed :: error where
  "AuthenticationFailed = ValueError ''Invalid password or data corrupted.''"


section \<open>Facts about the primitives\<close>

subsection \<open>Pieces of a buffer\<close>

lemma length_chunks: "length (chunks k n xs) = n"
  by (induction n arbitrary: xs) simp_all

lemma chunks_all_length:
  "k * n \<le> length xs \<Longrightarrow> list_all (\<lambda>c. length c = k) (chunks k n xs)"
proof (induction n arbitrary: xs)
  case 0
  then show ?case by simp
next
  case (Suc n)
  then have "k \<le> length xs" and "k * n \<le> length (drop k xs)"
    by simp_all
  with Suc.IH show ?case by simp
qed

lemma length_concat_uniform:
  "list_all (\<lambda>c. length c = k) xss \<Longrightarrow> length (concat xss) = k * length xss"
  by (induction xss) simp_all

lemma chunks_concat_uniform:
  "list_all (\<lambda>c. length c = k) xss \<Longrightarrow> chunks k (length xss) (concat xss) = xss"
  by (induction xss) simp_all

lemma concat_chunks: "length xs = k * n \<Longrightarrow> concat (chunks k n xs) = xs"
proof (induction n arbitrary: xs)
  case 0
  then show ?case by simp
next
  case (Suc n)
  then have "length (drop k xs) = k * n"
    by simp
  with Suc.IH show ?case by simp
qed

lemma length_concat_map_const:
  assumes "\<And>x. length (f x) = k"
  shows "length (concat (map f xs)) = k * length xs"
  by (induction xs) (simp_all add: assms)

subsection \<open>Digest and key lengths\<close>

lemma length_bytes_of_be32: "length (bytes_of_be32 w) = 4"
  by (simp add: bytes_of_be32_def)

lemma length_sha256_round: "length (sha256_round s kw) = length s"
  by (cases "(s, kw)" rule: sha256_round.cases) (simp_all add: Let_def)

lemma length_foldl_sha256_round: "length (foldl sha256_round s kws) = length s"
  by (induction kws arbitrary: s) (simp_all add: length_sha256_round)

lemma length_sha256_compress: "length (sha256_compress hs blk) = length hs"
  by (simp add: sha256_compress_def Let_def length_foldl_sha256_round)

lemma length_foldl_sha256_compress: "length (foldl sha256_compress hs blks) = length hs"
  by (induction blks arbitrary: hs) (simp_all add: length_sha256_compress)

lemma length_sha256: "length (sha256 m) = 32"
  by (simp add: sha256_def Let_def length_concat_map_const [where k = 4]
      length_bytes_of_be32 length_foldl_sha256_compress sha256_H0_def)

lemma length_digest: "length (digest alg m) = digest_size alg"
  by (cases alg) (simp add: length_sha256)

lemma length_hmac: "length (hmac alg k m) = digest_size alg"
  by (simp add: hmac_def Let_def length_digest)

lemma length_pbkdf2_iter:
  "length t = digest_size alg \<Longrightarrow> length (pbkdf2_iter alg pw n u t) = digest_size alg"
  by (induction n arbitrary: u t) (simp_all add: Let_def length_hmac)

lemma length_pbkdf2_F: "length (pbkdf2_F alg pw slt c i) = digest_size alg"
  by (simp add: pbkdf2_F_def Let_def length_pbkdf2_iter length_hmac)

lemma length_pbkdf2_hmac: "length (pbkdf2_hmac SHA256 pw slt c dklen) = dklen"
proof -
  let ?l = "(dklen + digest_size SHA256 - 1) div digest_size SHA256"
  let ?xs = "concat (map (pbkdf2_F SHA256 pw slt c) [1..<Suc ?l])"
  have "length ?xs = 32 * length [1..<Suc ?l]"
    by (rule length_concat_map_const) (simp add: length_pbkdf2_F)
  moreover have "length [1..<Suc ?l] = ?l"
    by simp
  moreover have "dklen \<le> 32 * ?l"
    by simp
  ultimately have "length (take dklen ?xs) = dklen"
    by (simp only: length_take min_absorb2)
  then show ?thesis
    unfolding pbkdf2_hmac_def .
qed

subsection \<open>PKCS7: what the padder appends, the unpadder removes\<close>

lemma padder_output:
  "(case padder_update [] m of (buffer, finished) \<Rightarrow> finished @ padder_finalize buffer)
   = m @ replicate (16 - length m mod 16) (of_nat (16 - length m mod 16))"
proof -
  have "length m - length m div 16 * 16 = length m mod 16"
    by (simp add: minus_div_mult_eq_mod)
  then show ?thesis
    by (simp add: padder_update_def padder_finalize_def Let_def)
qed

lemma unpadder_inverts_padder:
  fixes m :: bytes
  defines "p \<equiv> 16 - length m mod 16"
  defines "padded \<equiv> m @ replicate p (of_nat p)"
  shows "unpadder_update [] padded
           = (drop (length m div 16 * 16) m @ replicate p (of_nat p), take (length m div 16 * 16) m)"
    and "unpadder_finalize (drop (length m div 16 * 16) m @ replicate p (of_nat p))
           = Inr (drop (length m div 16 * 16) m)"
proof -
  let ?q = "length m div 16"
  let ?r = "length m mod 16"
  let ?x = "of_nat p :: byte"
  let ?buffer = "drop (?q * 16) m @ replicate p ?x"
  have p: "0 < p" "p \<le> 16" "?r + p = 16"
    by (simp_all add: p_def)
  have lp: "length padded = (?q + 1) * 16"
    using p(3) by (simp add: padded_def) presburger
  have q16: "?q * 16 \<le> length m"
    by simp
  have ld: "length (drop (?q * 16) m) = ?r"
    by (simp add: minus_div_mult_eq_mod)
  show "unpadder_update [] padded = (?buffer, take (?q * 16) m)"
    using q16 by (simp add: unpadder_update_def Let_def lp) (simp add: padded_def)
  have lb: "length ?buffer = 16"
    using ld p(3) by simp
  have last: "last ?buffer = ?x"
    using p(1) by simp
  have ux: "unat ?x = p"
    using p(2) by (simp add: unsigned_of_nat take_bit_nat_eq_self)
  have dr: "drop (16 - p) ?buffer = replicate p ?x"
    using ld p(3) by simp
  have chk: "check_pkcs7_padding ?buffer"
    unfolding check_pkcs7_padding_def Let_def last ux dr
    using p(1,2) by (simp add: list_all_iff)
  have tk: "take (16 - p) ?buffer = drop (?q * 16) m"
    using ld p(3) by simp
  show "unpadder_finalize ?buffer = Inr (drop (?q * 16) m)"
    unfolding unpadder_finalize_def lb last ux
    by (simp only: chk tk simp_thms if_False)
qed

lemma length_pkcs7_pad: "length (pkcs7_pad m) = (length m div 16 + 1) * 16"
  by (simp add: pkcs7_pad_def) presburger

subsection \<open>CBC: decryption inverts encryption\<close>

lemma length_xor_bytes: "length (xor_bytes xs ys) = min (length xs) (length ys)"
  by (simp add: xor_bytes_def)

lemma xor_bytes_cancel: "length xs = length ys \<Longrightarrow> xor_bytes (xor_bytes xs ys) ys = xs"
proof (induction xs ys rule: list_induct2)
  case Nil
  then show ?case by (simp add: xor_bytes_def)
next
  case (Cons x xs y ys)
  have "(x XOR y) XOR y = x"
    by (simp add: xor.assoc)
  with Cons.IH show ?case by (simp add: xor_bytes_def)
qed

lemma length_cbc_encrypt_blocks: "length (cbc_encrypt_blocks E prev ps) = length ps"
  by (induction ps arbitrary: prev) (simp_all add: Let_def)

lemma cbc_encrypt_blocks_all_length:
  assumes "\<And>x. length (E x) = 16"
  shows "list_all (\<lambda>c. length c = 16) (cbc_encrypt_blocks E prev ps)"
  by (induction ps arbitrary: prev) (simp_all add: Let_def assms)

lemma cbc_decrypt_encrypt_blocks:
  assumes inv: "\<And>x. length x = 16 \<Longrightarrow> D (E x) = x"
    and len: "\<And>x. length (E x) = 16"
    and "length prev = 16"
    and "list_all (\<lambda>p. length p = 16) ps"
  shows "cbc_decrypt_blocks D prev (cbc_encrypt_blocks E prev ps) = ps"
  using assms(3,4)
proof (induction ps arbitrary: prev)
  case Nil
  then show ?case by simp
next
  case (Cons p ps)
  then have lp: "length p = 16" and lps: "list_all (\<lambda>p. length p = 16) ps"
    by simp_all
  have lx: "length (xor_bytes p prev) = 16"
    by (simp add: length_xor_bytes lp Cons.prems(1))
  have "xor_bytes (D (E (xor_bytes p prev))) prev = p"
    by (simp add: inv [OF lx] xor_bytes_cancel lp Cons.prems(1))
  moreover have "cbc_decrypt_blocks D (E (xor_bytes p prev))
      (cbc_encrypt_blocks E (E (xor_bytes p prev)) ps) = ps"
    by (rule Cons.IH [OF len lps])
  ultimately show ?case
    by (simp add: Let_def)
qed


subsection \<open>AES: the inverse cipher inverts the cipher\<close>

lemma xor_cancel_left: "(x::byte) XOR (x XOR y) = y"
  by (simp add: xor.assoc [symmetric])

lemma xtime_xor: "xtime (a XOR b) = xtime a XOR xtime b"
  by (simp add: xtime_def bit_xor_iff xor.assoc xor.commute xor.left_commute xor_cancel_left)

lemma inv_mix_column_mix_column:
  "inv_mix_column (mix_column [a, b, c, d]) = [a, b, c, d]"
  by (simp add: mul2_def mul3_def mul9_def mul11_def mul13_def mul14_def xtime_xor
      xor.assoc xor.commute xor.left_commute xor_cancel_left)

lemma sbox_table_length: "length sbox_table = 256"
  by (simp add: sbox_table_def)

lemma sbox_table_range: "list_all (\<lambda>n. n < 256) sbox_table"
  by (simp add: sbox_table_def)

lemma sbox_tables_inverse: "map (\<lambda>n. inv_sbox_table ! n) sbox_table = [0..<256]"
  unfolding sbox_table_def inv_sbox_table_def
  by (simp add: upt_rec)

lemma inv_sub_byte_sub_byte: "inv_sub_byte (sub_byte b) = b"
proof -
  have n: "unat b < 256"
    using unsigned_less [of b, where ?'a = nat] by simp
  have r: "sbox_table ! unat b < 256"
    using sbox_table_range n by (simp add: list_all_length sbox_table_length)
  have "map (\<lambda>n. inv_sbox_table ! n) sbox_table ! unat b = [0..<256] ! unat b"
    by (simp only: sbox_tables_inverse)
  then have i: "inv_sbox_table ! (sbox_table ! unat b) = unat b"
    using n by (simp add: sbox_table_length)
  have "unat (of_nat (sbox_table ! unat b) :: byte) = sbox_table ! unat b"
    using r by (simp add: unsigned_of_nat take_bit_nat_eq_self)
  then show ?thesis
    by (simp add: inv_sub_byte_def sub_byte_def i)
qed

lemma inv_sub_bytes_sub_bytes: "inv_sub_bytes (sub_bytes s) = s"
  by (simp add: inv_sub_bytes_def sub_bytes_def inv_sub_byte_sub_byte map_idI)

lemma length_16_cases:
  assumes "length s = 16"
  obtains a0 a1 a2 a3 a4 a5 a6 a7 a8 a9 a10 a11 a12 a13 a14 a15
  where "s = [a0, a1, a2, a3, a4, a5, a6, a7, a8, a9, a10, a11, a12, a13, a14, a15]"
  using assms by (auto simp: eval_nat_numeral length_Suc_conv)

lemma inv_shift_rows_shift_rows:
  assumes "length s = 16"
  shows "inv_shift_rows (shift_rows s) = s"
  using assms by (elim length_16_cases) (simp add: inv_shift_rows_def shift_rows_def)

lemma inv_mix_columns_mix_columns:
  assumes "length s = 16"
  shows "inv_mix_columns (mix_columns s) = s"
  using assms
  by (elim length_16_cases)
     (simp add: inv_mix_columns_def mix_columns_def eval_nat_numeral
        inv_mix_column_mix_column [unfolded mix_column.simps] del: inv_mix_column.simps)

lemma add_round_key_cancel:
  "length s = length k \<Longrightarrow> add_round_key k (add_round_key k s) = s"
  by (simp add: add_round_key_def xor_bytes_cancel)

lemma length_add_round_key: "length k = length s \<Longrightarrow> length (add_round_key k s) = length s"
  by (simp add: add_round_key_def length_xor_bytes)

lemma length_sub_bytes: "length (sub_bytes s) = length s"
  by (simp add: sub_bytes_def)

lemma length_shift_rows: "length (shift_rows s) = 16"
  by (simp add: shift_rows_def)

lemma length_mix_columns: "length s = 16 \<Longrightarrow> length (mix_columns s) = 16"
  by (elim length_16_cases) (simp add: mix_columns_def eval_nat_numeral)

lemma length_aes_round: "length s = 16 \<Longrightarrow> length k = 16 \<Longrightarrow> length (aes_round s k) = 16"
  by (simp add: aes_round_def length_add_round_key length_mix_columns length_shift_rows)

lemma length_foldl_aes_round:
  "length s = 16 \<Longrightarrow> list_all (\<lambda>k. length k = 16) ks \<Longrightarrow> length (foldl aes_round s ks) = 16"
  by (induction ks arbitrary: s) (simp_all add: length_aes_round)

lemma inv_aes_round_undoes:
  assumes "length s = 16" and "length k = 16"
  shows "inv_aes_round (shift_rows (sub_bytes (aes_round s k))) k = shift_rows (sub_bytes s)"
proof -
  let ?m = "mix_columns (shift_rows (sub_bytes s))"
  have lm: "length ?m = 16"
    by (simp add: length_mix_columns length_shift_rows)
  have "inv_sub_bytes (inv_shift_rows (shift_rows (sub_bytes (aes_round s k)))) = aes_round s k"
    by (simp add: inv_shift_rows_shift_rows length_sub_bytes length_aes_round assms
        inv_sub_bytes_sub_bytes)
  moreover have "add_round_key k (aes_round s k) = ?m"
    by (simp add: aes_round_def add_round_key_cancel lm assms)
  moreover have "inv_mix_columns ?m = shift_rows (sub_bytes s)"
    by (simp add: inv_mix_columns_mix_columns length_shift_rows)
  ultimately show ?thesis
    by (simp add: inv_aes_round_def)
qed

lemma foldl_inv_aes_round_undoes:
  assumes "length s = 16" and "list_all (\<lambda>k. length k = 16) ks"
  shows "foldl inv_aes_round (shift_rows (sub_bytes (foldl aes_round s ks))) (rev ks)
         = shift_rows (sub_bytes s)"
  using assms
proof (induction ks arbitrary: s rule: rev_induct)
  case Nil
  then show ?case by simp
next
  case (snoc k ks)
  then have lk: "length k = 16" and lks: "list_all (\<lambda>k. length k = 16) ks"
    by simp_all
  have lf: "length (foldl aes_round s ks) = 16"
    using snoc.prems(1) lks by (rule length_foldl_aes_round)
  show ?case
    by (simp add: inv_aes_round_undoes [OF lf lk] snoc.IH [OF snoc.prems(1) lks])
qed

lemma inv_cipher_cipher:
  assumes "rks \<noteq> []" and "list_all (\<lambda>k. length k = 16) rks" and "length blk = 16"
  shows "aes_inv_cipher rks (aes_cipher rks blk) = blk"
proof -
  let ?mid = "butlast (tl rks)"
  let ?init = "add_round_key (hd rks) blk"
  let ?s = "foldl aes_round ?init ?mid"
  have lh: "length (hd rks) = 16" and ll: "length (last rks) = 16"
    using assms(1,2) by (simp_all add: list_all_iff)
  have "k \<in> set rks" if "k \<in> set ?mid" for k
    using that assms(1) by (auto dest!: in_set_butlastD intro: list.set_sel(2))
  with assms(2) have lmid: "list_all (\<lambda>k. length k = 16) ?mid"
    by (simp add: list_all_iff)
  have l0: "length ?init = 16"
    by (simp add: length_add_round_key lh assms(3))
  have ls: "length (shift_rows (sub_bytes ?s)) = length (last rks)"
    by (simp add: length_shift_rows ll)
  have "add_round_key (last rks) (aes_cipher rks blk) = shift_rows (sub_bytes ?s)"
    unfolding aes_cipher_def Let_def by (rule add_round_key_cancel [OF ls])
  then have "aes_inv_cipher rks (aes_cipher rks blk)
      = add_round_key (hd rks) (inv_sub_bytes (inv_shift_rows (shift_rows (sub_bytes ?init))))"
    by (simp add: aes_inv_cipher_def foldl_inv_aes_round_undoes [OF l0 lmid])
  also have "\<dots> = add_round_key (hd rks) ?init"
    by (simp add: inv_shift_rows_shift_rows length_sub_bytes l0 inv_sub_bytes_sub_bytes)
  also have "\<dots> = blk"
    by (simp add: add_round_key_cancel assms(3) lh)
  finally show ?thesis .
qed

lemma length_cipher:
  assumes "rks \<noteq> []" and "list_all (\<lambda>k. length k = 16) rks"
  shows "length (aes_cipher rks blk) = 16"
proof -
  have "length (last rks) = 16"
    using assms by (simp add: list_all_iff)
  then show ?thesis
    by (simp add: aes_cipher_def length_add_round_key length_shift_rows)
qed

subsection \<open>Key expansion: lengths\<close>

lemma length_rot_word: "length (rot_word w) = length w"
  by (cases w) simp_all

lemma expand_words:
  assumes "list_all (\<lambda>x. length x = 4) w" and "0 < nk" and "nk \<le> length w"
  shows "list_all (\<lambda>x. length x = 4) (expand nk n w) \<and> length (expand nk n w) = length w + n"
  using assms
proof (induction n arbitrary: w)
  case 0
  then show ?case by simp
next
  case (Suc n)
  let ?i = "length w"
  let ?prev = "w ! (?i - 1)"
  let ?temp = "if ?i mod nk = 0 then xor_bytes (sub_bytes (rot_word ?prev)) (rcon (?i div nk))
               else if 6 < nk \<and> ?i mod nk = 4 then sub_bytes ?prev else ?prev"
  let ?w' = "w @ [xor_bytes (w ! (?i - nk)) ?temp]"
  have pos: "0 < ?i"
    using Suc.prems(2,3) by linarith
  have lp: "length ?prev = 4"
    using Suc.prems(1) pos by (simp add: list_all_length)
  have lo: "length (w ! (?i - nk)) = 4"
    using Suc.prems pos by (simp add: list_all_length)
  have lt: "length ?temp = 4"
    using lp by (simp add: length_xor_bytes length_sub_bytes length_rot_word rcon_def)
  have all4: "list_all (\<lambda>x. length x = 4) ?w'"
    using Suc.prems(1) by (simp add: length_xor_bytes lo lt)
  have enough: "nk \<le> length ?w'"
    using Suc.prems(3) by simp
  have step: "expand nk (Suc n) w = expand nk n ?w'"
    by (simp only: expand.simps Let_def)
  have count: "length w + Suc n = length ?w' + n"
    by simp
  show ?case
    unfolding step count by (rule Suc.IH [OF all4 Suc.prems(2) enough])
qed

lemma key_expansion_256:
  assumes "length key = 32"
  shows "key_expansion key \<noteq> [] \<and> list_all (\<lambda>k. length k = 16) (key_expansion key)"
proof -
  let ?cols = "chunks 4 8 key"
  have w0: "list_all (\<lambda>x. length x = 4) ?cols"
    by (rule chunks_all_length) (simp add: assms)
  have "list_all (\<lambda>x. length x = 4) (expand 8 52 ?cols) \<and> length (expand 8 52 ?cols) = length ?cols + 52"
    by (rule expand_words [OF w0]) (simp_all add: length_chunks)
  then have "length (concat (expand 8 52 ?cols)) = 240"
    using length_concat_uniform [of 4 "expand 8 52 ?cols"] by (simp add: length_chunks)
  then have "list_all (\<lambda>k. length k = 16) (chunks 16 15 (concat (expand 8 52 ?cols)))"
    by (intro chunks_all_length) simp
  moreover have "length (chunks 16 15 (concat (expand 8 52 ?cols))) = 15"
    by (rule length_chunks)
  moreover have "key_expansion key = chunks 16 15 (concat (expand 8 52 ?cols))"
    by (simp add: key_expansion_def assms del: chunks.simps)
  ultimately show ?thesis
    by (simp only: length_0_conv [symmetric]) simp
qed

lemma aes_decrypt_encrypt_block:
  assumes "length key = 32" and "length blk = 16"
  shows "aes_decrypt_block key (aes_encrypt_block key blk) = blk"
  using key_expansion_256 [OF assms(1)] assms(2)
  by (simp add: aes_decrypt_block_def aes_encrypt_block_def inv_cipher_cipher)

lemma length_aes_encrypt_block:
  assumes "length key = 32"
  shows "length (aes_encrypt_block key blk) = 16"
  using key_expansion_256 [OF assms]
  by (simp add: aes_encrypt_block_def length_cipher)


subsection \<open>The cipher object on whole blocks\<close>

lemma length_encryptor_update:
  assumes "length (cipher_key c) = 32"
  shows "length (encryptor_update c xs) = 16 * (length xs div 16)"
proof -
  have "list_all (\<lambda>b. length b = 16)
      (cbc_encrypt_blocks (aes_encrypt_block (cipher_key c)) (cipher_iv c)
        (chunks 16 (length xs div 16) xs))"
    by (rule cbc_encrypt_blocks_all_length) (rule length_aes_encrypt_block [OF assms])
  then show ?thesis
    by (simp add: encryptor_update_def length_concat_uniform length_cbc_encrypt_blocks
        length_chunks)
qed

lemma decryptor_update_encryptor_update:
  assumes k: "length (cipher_key c) = 32" and i: "length (cipher_iv c) = 16"
    and m: "length xs mod 16 = 0"
  shows "decryptor_update c (encryptor_update c xs) = xs"
proof -
  let ?n = "length xs div 16"
  let ?E = "aes_encrypt_block (cipher_key c)"
  let ?D = "aes_decrypt_block (cipher_key c)"
  let ?ps = "chunks 16 ?n xs"
  let ?cs = "cbc_encrypt_blocks ?E (cipher_iv c) ?ps"
  have lx: "length xs = 16 * ?n"
    using m by presburger
  have ps16: "list_all (\<lambda>b. length b = 16) ?ps"
    by (rule chunks_all_length) simp
  have cs16: "list_all (\<lambda>b. length b = 16) ?cs"
    by (rule cbc_encrypt_blocks_all_length) (rule length_aes_encrypt_block [OF k])
  have lcs: "length ?cs = ?n"
    by (simp add: length_cbc_encrypt_blocks length_chunks)
  have "length (encryptor_update c xs) div 16 = ?n"
    by (simp add: length_encryptor_update [OF k])
  moreover have "chunks 16 ?n (concat ?cs) = ?cs"
    using chunks_concat_uniform [OF cs16] by (simp only: lcs)
  moreover have "cbc_decrypt_blocks ?D (cipher_iv c) ?cs = ?ps"
    by (rule cbc_decrypt_encrypt_blocks [OF _ _ i ps16])
       (simp_all add: aes_decrypt_encrypt_block k length_aes_encrypt_block)
  moreover have "concat ?ps = xs"
    by (rule concat_chunks [OF lx])
  ultimately show ?thesis
    by (simp add: decryptor_update_def) (simp add: encryptor_update_def)
qed

section \<open>Facts about \<open>SLE\<close>\<close>

lemma length_MAGIC_HEADER: "length MAGIC_HEADER = 7"
  by (simp add: MAGIC_HEADER_def bytes_literal_def)

lemma derive_key_result:
  "length salt = 16 \<Longrightarrow>
     derive_key self salt = Inr (pbkdf2_hmac SHA256 (password self) salt 100000 32)"
  by (simp add: derive_key_def derive_def)

lemma Cipher_AES_CBC_result:
  "length key = 32 \<Longrightarrow> length iv = 16 \<Longrightarrow>
     Cipher_AES_CBC key iv = Inr \<lparr> cipher_key = key, cipher_iv = iv \<rparr>"
  by (simp add: Cipher_AES_CBC_def)

lemma encrypt_result:
  assumes "32 \<le> length src"
  shows "encrypt self plain src =
     Inr (take 16 src @ take 16 (drop 16 src)
          @ encryptor_update
              \<lparr> cipher_key = pbkdf2_hmac SHA256 (password self) (take 16 src) 100000 32,
                cipher_iv = take 16 (drop 16 src) \<rparr>
              (pkcs7_pad (MAGIC_HEADER @ plain)),
          drop 32 src)"
proof -
  let ?salt = "take 16 src"
  let ?iv = "take 16 (drop 16 src)"
  let ?key = "pbkdf2_hmac SHA256 (password self) ?salt 100000 32"
  have r1: "os_urandom 16 src = Inr (?salt, drop 16 src)"
    using assms by (simp add: os_urandom_def)
  have r2: "os_urandom 16 (drop 16 src) = Inr (?iv, drop 32 src)"
    using assms by (simp add: os_urandom_def)
  have ls: "length ?salt = 16" and li: "length ?iv = 16"
    using assms by simp_all
  have dk: "derive_key self ?salt = Inr ?key"
    by (rule derive_key_result [OF ls])
  have ci: "Cipher_AES_CBC ?key ?iv = Inr \<lparr> cipher_key = ?key, cipher_iv = ?iv \<rparr>"
    by (rule Cipher_AES_CBC_result [OF length_pbkdf2_hmac li])
  have pd: "(case padder_update [] (MAGIC_HEADER @ plain) of
               (buffer, finished) \<Rightarrow> finished @ padder_finalize buffer)
            = pkcs7_pad (MAGIC_HEADER @ plain)"
    by (simp only: padder_output pkcs7_pad_def)
  have fin: "cipher_finalize (pkcs7_pad (MAGIC_HEADER @ plain)) = Inr []"
    by (simp add: cipher_finalize_def length_pkcs7_pad)
  show ?thesis
    by (simp add: encrypt_def r1 r2 dk Let_def split_def pd [unfolded split_def] ci fin)
qed

lemma decrypt_via_unpadded:
  "decrypt self blob =
     (case decrypt_unpadded self blob of
        Inl e \<Rightarrow> Inl e
      | Inr u \<Rightarrow>
          if startswith u MAGIC_HEADER then Inr (drop (length MAGIC_HEADER) u)
          else Inl (ValueError ''Invalid password or data corrupted.''))"
  by (simp add: decrypt_def decrypt_unpadded_def Let_def split_def split: sum.split)

lemma decrypt_unpadded_32:
  assumes "32 \<le> length blob"
  shows "decrypt_unpadded self blob =
     (let c = \<lparr> cipher_key = pbkdf2_hmac SHA256 (password self) (take 16 blob) 100000 32,
                cipher_iv = take 16 (drop 16 blob) \<rparr>
      in if length (drop 32 blob) mod 16 \<noteq> 0
         then Inl (ValueError
           ''The length of the provided data is not a multiple of the block length.'')
         else
           case unpadder_finalize (fst (unpadder_update [] (decryptor_update c (drop 32 blob)))) of
             Inl e \<Rightarrow> Inl e
           | Inr rest \<Rightarrow>
               Inr (snd (unpadder_update [] (decryptor_update c (drop 32 blob))) @ rest))"
proof -
  let ?salt = "take 16 blob"
  let ?iv = "take 16 (drop 16 blob)"
  let ?key = "pbkdf2_hmac SHA256 (password self) ?salt 100000 32"
  have ls: "length ?salt = 16" and li: "length ?iv = 16"
    using assms by simp_all
  have dk: "derive_key self ?salt = Inr ?key"
    by (rule derive_key_result [OF ls])
  have ci: "Cipher_AES_CBC ?key ?iv = Inr \<lparr> cipher_key = ?key, cipher_iv = ?iv \<rparr>"
    by (rule Cipher_AES_CBC_result [OF length_pbkdf2_hmac li])
  have "\<not> length blob < 32"
    using assms by simp
  then show ?thesis
    unfolding decrypt_unpadded_def
    by (simp add: slice_def Let_def split_def dk ci cipher_finalize_def)
qed

lemma decrypt_unpadded_encrypted:
  assumes ls: "length salt = 16" and li: "length iv = 16"
  shows "decrypt_unpadded self
           (salt @ iv @ encryptor_update
              \<lparr> cipher_key = pbkdf2_hmac SHA256 (password self) salt 100000 32,
                cipher_iv = iv \<rparr> (pkcs7_pad m))
         = Inr m"
proof -
  let ?c = "\<lparr> cipher_key = pbkdf2_hmac SHA256 (password self) salt 100000 32, cipher_iv = iv \<rparr>"
  let ?ct = "encryptor_update ?c (pkcs7_pad m)"
  let ?blob = "salt @ iv @ ?ct"
  let ?p = "16 - length m mod 16"
  let ?cut = "length m div 16 * 16"
  have k: "length (cipher_key ?c) = 32"
    by (simp add: length_pbkdf2_hmac)
  have lct: "length ?ct = (length m div 16 + 1) * 16"
    by (simp add: length_encryptor_update [OF k] length_pkcs7_pad)
  have parts: "take 16 ?blob = salt" "take 16 (drop 16 ?blob) = iv" "drop 32 ?blob = ?ct"
    using ls li by simp_all
  have big: "32 \<le> length ?blob"
    using ls li by simp
  have dec: "decryptor_update ?c ?ct = pkcs7_pad m"
    by (rule decryptor_update_encryptor_update [OF k]) (simp_all add: li length_pkcs7_pad)
  have up: "unpadder_update [] (pkcs7_pad m)
      = (drop ?cut m @ replicate ?p (of_nat ?p), take ?cut m)"
    unfolding pkcs7_pad_def by (rule unpadder_inverts_padder(1))
  have fin: "unpadder_finalize (drop ?cut m @ replicate ?p (of_nat ?p)) = Inr (drop ?cut m)"
    by (rule unpadder_inverts_padder(2))
  show ?thesis
    unfolding decrypt_unpadded_32 [OF big] parts Let_def dec up fst_conv snd_conv fin
    by (simp add: lct)
qed

lemma startswith_append: "startswith (p @ xs) p"
  by (simp add: startswith_def)

lemma decrypt_encrypted:
  assumes "length salt = 16" and "length iv = 16"
  shows "decrypt self
           (salt @ iv @ encryptor_update
              \<lparr> cipher_key = pbkdf2_hmac SHA256 (password self) salt 100000 32,
                cipher_iv = iv \<rparr> (pkcs7_pad (MAGIC_HEADER @ plain)))
         = Inr plain"
  by (simp add: decrypt_via_unpadded decrypt_unpadded_encrypted [OF assms] startswith_append)

lemma length_encrypted:
  assumes "length salt = 16" and "length iv = 16"
  shows "length (salt @ iv @ encryptor_update
              \<lparr> cipher_key = pbkdf2_hmac SHA256 pw salt 100000 32, cipher_iv = iv \<rparr>
              (pkcs7_pad (MAGIC_HEADER @ plain)))
         = 32 + ((length plain + 7) div 16 + 1) * 16"
  using assms
  by (simp add: length_encryptor_update length_pbkdf2_hmac length_pkcs7_pad length_MAGIC_HEADER
      add.commute)

lemma ceiling_blocks: "nat \<lceil>(real n + 7 + 1) / 16\<rceil> = (n + 7) div 16 + 1"
proof -
  let ?q = "(n + 7) div 16"
  have "16 * ?q \<le> n + 7" and "n + 7 < 16 * ?q + 16"
    by presburger+
  then have "real (16 * ?q) \<le> real (n + 7)" and "real (n + 7) < real (16 * ?q + 16)"
    by (simp_all only: of_nat_le_iff of_nat_less_iff)
  then have "\<lceil>(real n + 7 + 1) / 16\<rceil> = int ?q + 1"
    by (intro ceiling_unique) simp_all
  then show ?thesis
    by simp
qed


subsection \<open>Known answers: FIPS 180-4 for SHA-256, RFC 4231 for HMAC\<close>

lemma sha256_abc:
  "sha256 (bytes_literal ''abc'') =
     [186, 120, 22, 191, 143, 1, 207, 234, 65, 65, 64, 222, 93, 174, 34, 35,
      176, 3, 97, 163, 150, 23, 122, 156, 180, 16, 255, 97, 242, 0, 21, 173]"
  by code_simp

lemma hmac_sha256_rfc4231:
  "hmac SHA256 (bytes_literal ''Jefe'') (bytes_literal ''what do ya want for nothing?'') =
     [91, 220, 193, 70, 191, 96, 117, 78, 106, 4, 36, 38, 8, 149, 117, 199,
      90, 0, 63, 8, 157, 39, 57, 131, 157, 236, 88, 185, 100, 236, 56, 67]"
  by code_simp

subsection \<open>PBKDF2 as a chain of HMACs\<close>

lemma pbkdf2_iter_chain:
  "pbkdf2_iter alg pw n u t
   = foldl (map2 (XOR)) t (map (\<lambda>k. ((hmac alg pw) ^^ k) u) [Suc 0..<Suc n])"
proof (induction n arbitrary: u t)
  case 0
  show ?case by simp
next
  case (Suc n)
  have range: "[Suc 0..<Suc (Suc n)] = Suc 0 # map Suc [Suc 0..<Suc n]"
    by (simp only: map_Suc_upt) (rule upt_conv_Cons, simp)
  have shift: "((hmac alg pw) ^^ Suc k) u = ((hmac alg pw) ^^ k) (hmac alg pw u)" for k
    by (simp only: funpow.simps o_apply funpow_swap1)
  have "pbkdf2_iter alg pw (Suc n) u t
      = pbkdf2_iter alg pw n (hmac alg pw u) (map2 (XOR) t (hmac alg pw u))"
    by (simp only: pbkdf2_iter.simps Let_def)
  also have "\<dots> = foldl (map2 (XOR)) (map2 (XOR) t (hmac alg pw u))
      (map (\<lambda>k. ((hmac alg pw) ^^ k) (hmac alg pw u)) [Suc 0..<Suc n])"
    by (rule Suc.IH)
  also have "\<dots> = foldl (map2 (XOR)) t
      (map (\<lambda>k. ((hmac alg pw) ^^ k) u) (Suc 0 # map Suc [Suc 0..<Suc n]))"
    by (simp only: list.map foldl_Cons map_map o_def shift [symmetric])
       (simp only: funpow.simps o_apply id_apply)
  finally show ?case
    by (simp only: range)
qed

lemma pbkdf2_F_chain:
  assumes "0 < c"
  shows "pbkdf2_F alg pw slt c i
   = foldl (map2 (XOR)) (hmac alg pw (slt @ bytes_of_be32 (of_nat i)))
       (map (\<lambda>j. ((hmac alg pw) ^^ j) (slt @ bytes_of_be32 (of_nat i))) [2..<Suc c])"
proof -
  let ?m = "slt @ bytes_of_be32 (of_nat i)"
  have c: "Suc (c - 1) = c"
    using assms by simp
  have range: "[2..<Suc c] = map Suc [Suc 0..<c]"
    by (simp only: map_Suc_upt numeral_2_eq_2)
  have shift: "((hmac alg pw) ^^ k) (hmac alg pw ?m) = ((hmac alg pw) ^^ Suc k) ?m" for k
    by (simp only: funpow.simps o_apply funpow_swap1)
  have "pbkdf2_F alg pw slt c i = pbkdf2_iter alg pw (c - 1) (hmac alg pw ?m) (hmac alg pw ?m)"
    by (simp only: pbkdf2_F_def Let_def)
  also have "\<dots> = foldl (map2 (XOR)) (hmac alg pw ?m)
      (map (\<lambda>k. ((hmac alg pw) ^^ k) (hmac alg pw ?m)) [Suc 0..<c])"
    by (simp only: pbkdf2_iter_chain c)
  also have "\<dots> = foldl (map2 (XOR)) (hmac alg pw ?m)
      (map (\<lambda>j. ((hmac alg pw) ^^ j) ?m) [2..<Suc c])"
    by (simp only: range map_map o_def shift)
  finally show ?thesis .
qed

lemma pbkdf2_hmac_one_block: "pbkdf2_hmac SHA256 pw slt c 32 = pbkdf2_F SHA256 pw slt c 1"
  by (simp add: pbkdf2_hmac_def length_pbkdf2_F)

lemma bytes_of_be32_one: "bytes_of_be32 (of_nat 1) = [0, 0, 0, 1]"
  by (simp add: bytes_of_be32_def)

lemma derive_key_chain:
  assumes "length salt = 16"
  shows "derive_key self salt
   = Inr (foldl (map2 (XOR)) (hmac SHA256 (password self) (salt @ [0, 0, 0, 1]))
       (map (\<lambda>j. ((hmac SHA256 (password self)) ^^ j) (salt @ [0, 0, 0, 1]))
          [2..<Suc 100000]))"
proof -
  have pos: "0 < (100000::nat)"
    by simp
  show ?thesis
    unfolding derive_key_result [OF assms] pbkdf2_hmac_one_block pbkdf2_F_chain [OF pos]
      bytes_of_be32_one
    by (rule refl)
qed

lemma derive_key_length:
  assumes "length salt = 16"
  shows "\<exists>key. derive_key self salt = Inr key \<and> length key = 32"
  using derive_key_result [OF assms, of self] length_pbkdf2_hmac by blast

lemma encrypt_key:
  assumes "32 \<le> length src" and "derive_key self (take 16 src) = Inr key"
  shows "\<exists>blob rest. encrypt self plain src = Inr (blob, rest)
           \<and> slice 0 16 blob = take 16 src
           \<and> drop 32 blob = encryptor_update
                \<lparr> cipher_key = key, cipher_iv = slice 16 32 blob \<rparr>
                (pkcs7_pad (MAGIC_HEADER @ plain))"
proof -
  have ls: "length (take 16 src) = 16" and li: "length (take 16 (drop 16 src)) = 16"
    using assms(1) by simp_all
  have key: "key = pbkdf2_hmac SHA256 (password self) (take 16 src) 100000 32"
    using assms(2) derive_key_result [OF ls, of self] by simp
  show ?thesis
    unfolding encrypt_result [OF assms(1)] key
    using ls li by (simp add: slice_def)
qed

section \<open>The constructor\<close>

text \<open>
  C10.  Constructing the engine with a password that is not \<open>bytes\<close> fails with a
  \<open>TypeError\<close> (nothing else has been computed: the constructor's result is the error);
  for every \<open>bytes\<close> password, the empty one included, construction succeeds and the
  engine holds the password unchanged.
\<close>

theorem SLE_init_type_check:
  "(\<not> isinstance_bytes pw \<longrightarrow> SLE_init pw = Inl (TypeError ''Password must be of type bytes.''))
   \<and> (\<exists>s. SLE_init (PyBytes b) = Inr s \<and> password s = b)"
  by (cases pw) (simp_all add: SLE_init_def isinstance_bytes_def)

theorem SLE_init_type_check_witness:
  "\<not> isinstance_bytes (PyStr ''hunter2'')
   \<and> SLE_init (PyStr ''hunter2'') = Inl (TypeError ''Password must be of type bytes.'')
   \<and> (\<exists>s. SLE_init (PyBytes []) = Inr s \<and> password s = [])"
  using SLE_init_type_check [of "PyStr ''hunter2''" "[]"]
  by (simp add: isinstance_bytes_def)

section \<open>Key derivation\<close>

text \<open>
  C4.  Key derivation fails with \<open>InvalidSaltLength\<close> exactly when the salt does not have
  16 bytes; with a 16-byte salt it returns a key.
\<close>

theorem derive_key_salt_length:
  "(derive_key self salt = Inl InvalidSaltLength) = (length salt \<noteq> 16)
   \<and> (length salt = 16 \<longrightarrow> (\<exists>key. derive_key self salt = Inr key))"
  by (simp add: derive_key_def InvalidSaltLength_def Let_def)

theorem derive_key_salt_length_witness:
  "derive_key \<lparr>password = bytes_literal ''correct-horse'', backend = DefaultBackend\<rparr>
       (replicate 15 0) = Inl InvalidSaltLength
   \<and> length (replicate 16 (0::byte)) = 16
   \<and> (\<exists>key. derive_key \<lparr>password = bytes_literal ''correct-horse'', backend = DefaultBackend\<rparr>
         (replicate 16 0) = Inr key)"
  using derive_key_salt_length
      [of "\<lparr>password = bytes_literal ''correct-horse'', backend = DefaultBackend\<rparr>"
          "replicate 15 0"]
    derive_key_salt_length
      [of "\<lparr>password = bytes_literal ''correct-horse'', backend = DefaultBackend\<rparr>"
          "replicate 16 0"]
  by simp

text \<open>
  C6.  For a 16-byte salt, \<open>derive_key\<close> returns the one block of PBKDF2 over HMAC with
  SHA-256: the XOR of \<open>U\<^sub>1, ..., U\<^sub>c\<close> for \<open>c = 100000\<close>, where \<open>U\<^sub>1\<close> is the HMAC, under the
  password, of the salt followed by the block number 1 on 32 bits, and \<open>U\<^sub>j\<close> is the HMAC
  applied \<open>j\<close> times: a chain of exactly 100000 HMACs.  The hash is SHA-256: its digest has
  256 bits (32 bytes, so that one block is the key), it sends \<open>abc\<close> to the digest the
  standard gives, and the HMAC over it gives the answer of RFC 4231 (test case 2).  The key
  has exactly 32 bytes.  The key is determined by the password and the salt: two
  encryptions that draw the same salt, whatever else they draw and whatever they encrypt,
  are made under one key, and this is the key \<open>derive_key\<close> returns for the salt stored in
  either blob, which is how \<open>decrypt\<close> computes it again.
\<close>

theorem derive_key_pbkdf2:
  "length salt = 16 \<longrightarrow>
     derive_key self salt
       = Inr (foldl (map2 (XOR)) (hmac SHA256 (password self) (salt @ [0, 0, 0, 1]))
           (map (\<lambda>j. ((hmac SHA256 (password self)) ^^ j) (salt @ [0, 0, 0, 1]))
              [2..<Suc 100000]))
     \<and> (\<exists>key. derive_key self salt = Inr key \<and> length key = 32)
     \<and> 8 * length (digest SHA256 m) = 256
     \<and> digest SHA256 (bytes_literal ''abc'')
         = [186, 120, 22, 191, 143, 1, 207, 234, 65, 65, 64, 222, 93, 174, 34, 35,
            176, 3, 97, 163, 150, 23, 122, 156, 180, 16, 255, 97, 242, 0, 21, 173]
     \<and> hmac SHA256 (bytes_literal ''Jefe'') (bytes_literal ''what do ya want for nothing?'')
         = [91, 220, 193, 70, 191, 96, 117, 78, 106, 4, 36, 38, 8, 149, 117, 199,
            90, 0, 63, 8, 157, 39, 57, 131, 157, 236, 88, 185, 100, 236, 56, 67]
     \<and> (32 \<le> length src \<and> take 16 src = salt \<and> 32 \<le> length src' \<and> take 16 src' = salt \<longrightarrow>
          (\<exists>key blob rest blob' rest'.
             encrypt self plain src = Inr (blob, rest)
             \<and> encrypt self plain' src' = Inr (blob', rest')
             \<and> drop 32 blob = encryptor_update
                  \<lparr> cipher_key = key, cipher_iv = slice 16 32 blob \<rparr>
                  (pkcs7_pad (MAGIC_HEADER @ plain))
             \<and> drop 32 blob' = encryptor_update
                  \<lparr> cipher_key = key, cipher_iv = slice 16 32 blob' \<rparr>
                  (pkcs7_pad (MAGIC_HEADER @ plain'))
             \<and> derive_key self (slice 0 16 blob) = Inr key
             \<and> derive_key self (slice 0 16 blob') = Inr key))"
proof (intro impI conjI)
  assume salt: "length salt = 16"
  show "derive_key self salt
       = Inr (foldl (map2 (XOR)) (hmac SHA256 (password self) (salt @ [0, 0, 0, 1]))
           (map (\<lambda>j. ((hmac SHA256 (password self)) ^^ j) (salt @ [0, 0, 0, 1]))
              [2..<Suc 100000]))"
    by (rule derive_key_chain [OF salt])
  show "\<exists>key. derive_key self salt = Inr key \<and> length key = 32"
    by (rule derive_key_length [OF salt])
  show "8 * length (digest SHA256 m) = 256"
    by (simp add: length_sha256)
  show "digest SHA256 (bytes_literal ''abc'')
         = [186, 120, 22, 191, 143, 1, 207, 234, 65, 65, 64, 222, 93, 174, 34, 35,
            176, 3, 97, 163, 150, 23, 122, 156, 180, 16, 255, 97, 242, 0, 21, 173]"
    by (simp only: digest.simps sha256_abc)
  show "hmac SHA256 (bytes_literal ''Jefe'') (bytes_literal ''what do ya want for nothing?'')
         = [91, 220, 193, 70, 191, 96, 117, 78, 106, 4, 36, 38, 8, 149, 117, 199,
            90, 0, 63, 8, 157, 39, 57, 131, 157, 236, 88, 185, 100, 236, 56, 67]"
    by (rule hmac_sha256_rfc4231)
  show "\<exists>key blob rest blob' rest'.
             encrypt self plain src = Inr (blob, rest)
             \<and> encrypt self plain' src' = Inr (blob', rest')
             \<and> drop 32 blob = encryptor_update
                  \<lparr> cipher_key = key, cipher_iv = slice 16 32 blob \<rparr>
                  (pkcs7_pad (MAGIC_HEADER @ plain))
             \<and> drop 32 blob' = encryptor_update
                  \<lparr> cipher_key = key, cipher_iv = slice 16 32 blob' \<rparr>
                  (pkcs7_pad (MAGIC_HEADER @ plain'))
             \<and> derive_key self (slice 0 16 blob) = Inr key
             \<and> derive_key self (slice 0 16 blob') = Inr key"
    if draws: "32 \<le> length src \<and> take 16 src = salt \<and> 32 \<le> length src' \<and> take 16 src' = salt"
  proof -
    obtain key where key: "derive_key self salt = Inr key"
      using derive_key_length [OF salt] by blast
    have k1: "derive_key self (take 16 src) = Inr key"
      and k2: "derive_key self (take 16 src') = Inr key"
      using draws key by simp_all
    obtain blob rest where b1: "encrypt self plain src = Inr (blob, rest)"
        "slice 0 16 blob = take 16 src"
        "drop 32 blob = encryptor_update \<lparr> cipher_key = key, cipher_iv = slice 16 32 blob \<rparr>
            (pkcs7_pad (MAGIC_HEADER @ plain))"
      using encrypt_key [OF _ k1, of plain] draws by blast
    obtain blob' rest' where b2: "encrypt self plain' src' = Inr (blob', rest')"
        "slice 0 16 blob' = take 16 src'"
        "drop 32 blob' = encryptor_update \<lparr> cipher_key = key, cipher_iv = slice 16 32 blob' \<rparr>
            (pkcs7_pad (MAGIC_HEADER @ plain'))"
      using encrypt_key [OF _ k2, of plain'] draws by blast
    have "derive_key self (slice 0 16 blob) = Inr key"
      and "derive_key self (slice 0 16 blob') = Inr key"
      by (simp_all only: b1(2) b2(2) k1 k2)
    with b1(1,3) b2(1,3) show ?thesis
      by blast
  qed
qed

theorem derive_key_pbkdf2_witness:
  "length (replicate 16 (1::byte)) = 16
   \<and> derive_key \<lparr>password = bytes_literal ''correct-horse'', backend = DefaultBackend\<rparr>
        (replicate 16 1)
       = Inr (foldl (map2 (XOR))
           (hmac SHA256 (bytes_literal ''correct-horse'') (replicate 16 1 @ [0, 0, 0, 1]))
           (map (\<lambda>j. ((hmac SHA256 (bytes_literal ''correct-horse'')) ^^ j)
                  (replicate 16 1 @ [0, 0, 0, 1]))
              [2..<Suc 100000]))
   \<and> (\<exists>key. derive_key \<lparr>password = bytes_literal ''correct-horse'', backend = DefaultBackend\<rparr>
         (replicate 16 1) = Inr key \<and> length key = 32)
   \<and> 32 \<le> length (replicate 16 (1::byte) @ replicate 16 2)
   \<and> take 16 (replicate 16 (1::byte) @ replicate 16 2) = replicate 16 1
   \<and> 32 \<le> length (replicate 16 (1::byte) @ replicate 16 3)
   \<and> take 16 (replicate 16 (1::byte) @ replicate 16 3) = replicate 16 1
   \<and> (\<exists>key blob rest blob' rest'.
         encrypt \<lparr>password = bytes_literal ''correct-horse'', backend = DefaultBackend\<rparr>
           (bytes_literal ''top secret'') (replicate 16 1 @ replicate 16 2) = Inr (blob, rest)
         \<and> encrypt \<lparr>password = bytes_literal ''correct-horse'', backend = DefaultBackend\<rparr>
             [] (replicate 16 1 @ replicate 16 3) = Inr (blob', rest')
         \<and> drop 32 blob = encryptor_update
              \<lparr> cipher_key = key, cipher_iv = slice 16 32 blob \<rparr>
              (pkcs7_pad (MAGIC_HEADER @ bytes_literal ''top secret''))
         \<and> drop 32 blob' = encryptor_update
              \<lparr> cipher_key = key, cipher_iv = slice 16 32 blob' \<rparr>
              (pkcs7_pad (MAGIC_HEADER @ []))
         \<and> derive_key \<lparr>password = bytes_literal ''correct-horse'', backend = DefaultBackend\<rparr>
             (slice 0 16 blob) = Inr key
         \<and> derive_key \<lparr>password = bytes_literal ''correct-horse'', backend = DefaultBackend\<rparr>
             (slice 0 16 blob') = Inr key)"
proof -
  let ?self = "\<lparr>password = bytes_literal ''correct-horse'', backend = DefaultBackend\<rparr>"
  have salt: "length (replicate 16 (1::byte)) = 16"
    by simp
  have draws: "32 \<le> length (replicate 16 (1::byte) @ replicate 16 2)"
      "take 16 (replicate 16 (1::byte) @ replicate 16 2) = replicate 16 1"
      "32 \<le> length (replicate 16 (1::byte) @ replicate 16 3)"
      "take 16 (replicate 16 (1::byte) @ replicate 16 3) = replicate 16 1"
    by simp_all
  have pw: "password ?self = bytes_literal ''correct-horse''"
    by simp
  from derive_key_pbkdf2
      [of "replicate 16 1" ?self _ "replicate 16 1 @ replicate 16 2"
          "replicate 16 1 @ replicate 16 3" "bytes_literal ''top secret''" "[]", unfolded pw]
    salt draws
  show ?thesis
    by blast
qed

section \<open>Encryption\<close>

text \<open>
  C8.  For every password and every plaintext, the empty ones included, \<open>encrypt\<close> returns
  a blob and raises nothing, provided the random source delivers the 32 bytes asked of it.
\<close>

theorem encrypt_succeeds:
  "32 \<le> length src \<Longrightarrow> \<exists>blob src'. encrypt self plain src = Inr (blob, src')"
  by (simp add: encrypt_result)

theorem encrypt_succeeds_witness:
  "32 \<le> length (replicate 32 (0::byte))
   \<and> (\<exists>blob src'. encrypt \<lparr>password = [], backend = DefaultBackend\<rparr> [] (replicate 32 0)
         = Inr (blob, src'))"
proof -
  have src: "32 \<le> length (replicate 32 (0::byte))"
    by simp
  from encrypt_succeeds [OF src] src show ?thesis
    by blast
qed

text \<open>
  C3.  The blob has 32 bytes (salt and initialization vector) followed by the marker and
  the plaintext padded to the next multiple of 16, with at least one byte of padding:
  \<open>32 + ceil((len(p) + 7 + 1) / 16) * 16\<close> bytes; 64 bytes for a plaintext of 10 bytes.
\<close>

theorem encrypt_blob_length:
  "32 \<le> length src \<Longrightarrow>
     \<exists>blob src'. encrypt self plain src = Inr (blob, src')
       \<and> length blob = 32 + nat \<lceil>(real (length plain) + 7 + 1) / 16\<rceil> * 16
       \<and> length (take 16 blob) = 16 \<and> length (slice 16 32 blob) = 16
       \<and> length (drop 32 blob) = ((length plain + length MAGIC_HEADER) div 16 + 1) * 16
       \<and> (length plain = 10 \<longrightarrow> length blob = 64)"
proof -
  assume src: "32 \<le> length src"
  let ?blob = "take 16 src @ take 16 (drop 16 src)
          @ encryptor_update
              \<lparr> cipher_key = pbkdf2_hmac SHA256 (password self) (take 16 src) 100000 32,
                cipher_iv = take 16 (drop 16 src) \<rparr>
              (pkcs7_pad (MAGIC_HEADER @ plain))"
  have ls: "length (take 16 src) = 16" and li: "length (take 16 (drop 16 src)) = 16"
    using src by simp_all
  have len: "length ?blob = 32 + ((length plain + 7) div 16 + 1) * 16"
    by (rule length_encrypted [OF ls li])
  have "encrypt self plain src = Inr (?blob, drop 32 src)"
    by (rule encrypt_result [OF src])
  moreover have "length ?blob = 32 + nat \<lceil>(real (length plain) + 7 + 1) / 16\<rceil> * 16"
    by (simp only: len ceiling_blocks)
  moreover have "length (take 16 ?blob) = 16" and "length (slice 16 32 ?blob) = 16"
    using ls li by (simp_all add: slice_def)
  moreover have "length (drop 32 ?blob) = ((length plain + length MAGIC_HEADER) div 16 + 1) * 16"
    using len ls li by (simp add: length_MAGIC_HEADER)
  moreover have "length plain = 10 \<longrightarrow> length ?blob = 64"
    by (simp only: len) simp
  ultimately show ?thesis
    by blast
qed

theorem encrypt_blob_length_witness:
  "32 \<le> length (replicate 32 (0::byte))
   \<and> (\<exists>blob src'.
         encrypt \<lparr>password = bytes_literal ''correct-horse'', backend = DefaultBackend\<rparr>
           (bytes_literal ''top secret'') (replicate 32 0) = Inr (blob, src')
         \<and> length blob = 64)"
proof -
  have src: "32 \<le> length (replicate 32 (0::byte))"
    by simp
  have ten: "length (bytes_literal ''top secret'') = 10"
    by (simp add: bytes_literal_def)
  from encrypt_blob_length [OF src, of _ "bytes_literal ''top secret''"] ten src
  show ?thesis
    by blast
qed

section \<open>Decryption\<close>

text \<open>
  C1.  Round trip: for every plaintext and every non-empty password, decrypting what
  \<open>encrypt\<close> returned, with the same password, gives back the plaintext, byte for byte.
  (The random source has to deliver the salt and the initialization vector.)
\<close>

theorem decrypt_encrypt_roundtrip:
  assumes "password self \<noteq> []" and "32 \<le> length src"
  shows "\<exists>blob src'. encrypt self plain src = Inr (blob, src') \<and> decrypt self blob = Inr plain"
proof -
  have ls: "length (take 16 src) = 16" and li: "length (take 16 (drop 16 src)) = 16"
    using assms(2) by simp_all
  show ?thesis
    unfolding encrypt_result [OF assms(2)]
    using decrypt_encrypted [OF ls li] by blast
qed

theorem decrypt_encrypt_roundtrip_witness:
  "password \<lparr>password = bytes_literal ''correct-horse'', backend = DefaultBackend\<rparr> \<noteq> []
   \<and> 32 \<le> length (replicate 32 (0::byte))
   \<and> (\<exists>blob src'.
         encrypt \<lparr>password = bytes_literal ''correct-horse'', backend = DefaultBackend\<rparr>
           (bytes_literal ''top secret'') (replicate 32 0) = Inr (blob, src')
         \<and> decrypt \<lparr>password = bytes_literal ''correct-horse'', backend = DefaultBackend\<rparr>
             blob = Inr (bytes_literal ''top secret''))"
proof -
  have pw: "password \<lparr>password = bytes_literal ''correct-horse'', backend = DefaultBackend\<rparr>
      \<noteq> []"
    by (simp add: bytes_literal_def)
  have src: "32 \<le> length (replicate 32 (0::byte))"
    by simp
  from decrypt_encrypt_roundtrip [OF pw src] pw src show ?thesis
    by blast
qed

text \<open>
  C5.  Once the padding has been removed, \<open>decrypt\<close> fails with \<open>AuthenticationFailed\<close>
  when what is left does not start with the marker, and otherwise returns exactly the bytes
  that follow the marker.
\<close>

theorem decrypt_marker_check:
  assumes "decrypt_unpadded self blob = Inr u"
  shows "decrypt self blob =
           (if startswith u MAGIC_HEADER then Inr (drop (length MAGIC_HEADER) u)
            else Inl AuthenticationFailed)
         \<and> (\<forall>rest. u = MAGIC_HEADER @ rest \<longrightarrow> decrypt self blob = Inr rest)"
  by (simp add: decrypt_via_unpadded assms AuthenticationFailed_def startswith_append)

theorem decrypt_marker_check_witness:
  "decrypt_unpadded \<lparr>password = bytes_literal ''correct-horse'', backend = DefaultBackend\<rparr>
      (replicate 16 1 @ replicate 16 2 @ encryptor_update
         \<lparr> cipher_key = pbkdf2_hmac SHA256 (bytes_literal ''correct-horse'') (replicate 16 1)
             100000 32,
           cipher_iv = replicate 16 2 \<rparr> (pkcs7_pad (bytes_literal ''top secret'')))
     = Inr (bytes_literal ''top secret'')
   \<and> decrypt \<lparr>password = bytes_literal ''correct-horse'', backend = DefaultBackend\<rparr>
      (replicate 16 1 @ replicate 16 2 @ encryptor_update
         \<lparr> cipher_key = pbkdf2_hmac SHA256 (bytes_literal ''correct-horse'') (replicate 16 1)
             100000 32,
           cipher_iv = replicate 16 2 \<rparr> (pkcs7_pad (bytes_literal ''top secret'')))
     = Inl AuthenticationFailed
   \<and> decrypt_unpadded \<lparr>password = bytes_literal ''correct-horse'', backend = DefaultBackend\<rparr>
      (replicate 16 1 @ replicate 16 2 @ encryptor_update
         \<lparr> cipher_key = pbkdf2_hmac SHA256 (bytes_literal ''correct-horse'') (replicate 16 1)
             100000 32,
           cipher_iv = replicate 16 2 \<rparr>
         (pkcs7_pad (MAGIC_HEADER @ bytes_literal ''top secret'')))
     = Inr (MAGIC_HEADER @ bytes_literal ''top secret'')
   \<and> decrypt \<lparr>password = bytes_literal ''correct-horse'', backend = DefaultBackend\<rparr>
      (replicate 16 1 @ replicate 16 2 @ encryptor_update
         \<lparr> cipher_key = pbkdf2_hmac SHA256 (bytes_literal ''correct-horse'') (replicate 16 1)
             100000 32,
           cipher_iv = replicate 16 2 \<rparr>
         (pkcs7_pad (MAGIC_HEADER @ bytes_literal ''top secret'')))
     = Inr (bytes_literal ''top secret'')"
proof -
  let ?self = "\<lparr>password = bytes_literal ''correct-horse'', backend = DefaultBackend\<rparr>"
  let ?c = "\<lparr> cipher_key = pbkdf2_hmac SHA256 (bytes_literal ''correct-horse'')
                (replicate 16 1) 100000 32,
              cipher_iv = replicate 16 2 \<rparr>"
  let ?blob = "\<lambda>m. replicate 16 1 @ replicate 16 2 @ encryptor_update ?c (pkcs7_pad m)"
  have un: "decrypt_unpadded ?self (?blob m) = Inr m" for m
    using decrypt_unpadded_encrypted [of "replicate 16 1" "replicate 16 2" ?self m]
    by simp
  have no_marker: "\<not> startswith (bytes_literal ''top secret'') MAGIC_HEADER"
    by (simp add: startswith_def MAGIC_HEADER_def bytes_literal_def)
  have "decrypt ?self (?blob (bytes_literal ''top secret'')) = Inl AuthenticationFailed"
    using decrypt_marker_check [OF un [of "bytes_literal ''top secret''"]] no_marker
    by simp
  moreover have "decrypt ?self (?blob (MAGIC_HEADER @ bytes_literal ''top secret''))
      = Inr (bytes_literal ''top secret'')"
    using decrypt_marker_check [OF un [of "MAGIC_HEADER @ bytes_literal ''top secret''"]]
    by (simp add: startswith_append)
  ultimately show ?thesis
    using un by simp
qed

text \<open>
  C2, as the code has it.  \<open>decrypt\<close> fails with \<open>MalformedBlob\<close> when the blob is shorter
  than 32 bytes, and when the length of its ciphertext is not a multiple of 16.  A blob of
  exactly 32 bytes, whose ciphertext is empty, is not rejected there: the empty ciphertext
  decrypts to nothing, and the unpadder fails on it with \<open>InvalidPadding\<close>.
\<close>

theorem decrypt_malformed_blob:
  "(length blob < 32 \<longrightarrow> decrypt self blob = Inl BlobTooShort)
   \<and> (32 \<le> length blob \<and> (length blob - 32) mod 16 \<noteq> 0
        \<longrightarrow> decrypt self blob = Inl NotBlockMultiple)
   \<and> (length blob = 32 \<longrightarrow> decrypt self blob = Inl InvalidPadding)
   \<and> BlobTooShort \<in> MalformedBlob \<and> NotBlockMultiple \<in> MalformedBlob
   \<and> InvalidPadding \<notin> MalformedBlob"
proof (intro conjI impI)
  assume "length blob < 32"
  then show "decrypt self blob = Inl BlobTooShort"
    by (simp add: decrypt_def BlobTooShort_def)
next
  assume "32 \<le> length blob \<and> (length blob - 32) mod 16 \<noteq> 0"
  then show "decrypt self blob = Inl NotBlockMultiple"
    by (simp add: decrypt_via_unpadded decrypt_unpadded_32 NotBlockMultiple_def)
next
  assume "length blob = 32"
  then show "decrypt self blob = Inl InvalidPadding"
    by (simp add: decrypt_via_unpadded decrypt_unpadded_32 decryptor_update_def
        unpadder_update_def unpadder_finalize_def InvalidPadding_def)
qed (simp_all add: MalformedBlob_def BlobTooShort_def NotBlockMultiple_def InvalidPadding_def)

theorem decrypt_malformed_blob_witness:
  "length (replicate 31 (0::byte)) < 32
   \<and> decrypt \<lparr>password = bytes_literal ''correct-horse'', backend = DefaultBackend\<rparr>
        (replicate 31 0) = Inl BlobTooShort
   \<and> 32 \<le> length (replicate 40 (0::byte)) \<and> (length (replicate 40 (0::byte)) - 32) mod 16 \<noteq> 0
   \<and> decrypt \<lparr>password = bytes_literal ''correct-horse'', backend = DefaultBackend\<rparr>
        (replicate 40 0) = Inl NotBlockMultiple
   \<and> length (replicate 32 (0::byte)) = 32
   \<and> decrypt \<lparr>password = bytes_literal ''correct-horse'', backend = DefaultBackend\<rparr>
        (replicate 32 0) = Inl InvalidPadding"
  using decrypt_malformed_blob
      [of "replicate 31 0"
          "\<lparr>password = bytes_literal ''correct-horse'', backend = DefaultBackend\<rparr>"]
    decrypt_malformed_blob
      [of "replicate 40 0"
          "\<lparr>password = bytes_literal ''correct-horse'', backend = DefaultBackend\<rparr>"]
    decrypt_malformed_blob
      [of "replicate 32 0"
          "\<lparr>password = bytes_literal ''correct-horse'', backend = DefaultBackend\<rparr>"]
  by simp

text \<open>
  C2 as stated fails on a blob of 32 zero bytes: its ciphertext has length 0, which is not
  a non-zero multiple of 16, and \<open>decrypt\<close> fails with \<open>InvalidPadding\<close>, which is not
  \<open>MalformedBlob\<close>.
\<close>

theorem decrypt_empty_ciphertext_counterexample:
  "length (drop 32 (replicate 32 (0::byte))) = 0
   \<and> decrypt \<lparr>password = bytes_literal ''correct-horse'', backend = DefaultBackend\<rparr>
        (replicate 32 0) = Inl InvalidPadding
   \<and> InvalidPadding \<notin> MalformedBlob"
  by (simp add: decrypt_via_unpadded decrypt_unpadded_32 decryptor_update_def
      unpadder_update_def unpadder_finalize_def InvalidPadding_def MalformedBlob_def
      BlobTooShort_def NotBlockMultiple_def)

section \<open>The marker\<close>

text \<open>
  C9.  The marker is the 7 bytes of \<open>__SLE__\<close> (95 95 83 76 69 95 95).  It is what
  \<open>encrypt\<close> puts before the plaintext ahead of the padding: removing the padding from the
  decrypted blob gives these 7 bytes followed by the plaintext.  And it is what \<open>decrypt\<close>
  looks for: once the padding is removed, \<open>decrypt\<close> returns a plaintext exactly when the
  first 7 bytes are these.
\<close>

theorem magic_header_SLE:
  "MAGIC_HEADER = [95, 95, 83, 76, 69, 95, 95]
   \<and> length MAGIC_HEADER = 7
   \<and> (32 \<le> length src \<longrightarrow>
        (\<exists>blob src'. encrypt self plain src = Inr (blob, src')
           \<and> decrypt_unpadded self blob = Inr ([95, 95, 83, 76, 69, 95, 95] @ plain)))
   \<and> (decrypt_unpadded self blob = Inr u \<longrightarrow>
        (\<exists>p. decrypt self blob = Inr p) = (take 7 u = [95, 95, 83, 76, 69, 95, 95]))"
proof (intro conjI impI)
  show m: "MAGIC_HEADER = [95, 95, 83, 76, 69, 95, 95]"
    by (simp add: MAGIC_HEADER_def bytes_literal_def)
  show "length MAGIC_HEADER = 7"
    by (rule length_MAGIC_HEADER)
  show "\<exists>blob src'. encrypt self plain src = Inr (blob, src')
      \<and> decrypt_unpadded self blob = Inr ([95, 95, 83, 76, 69, 95, 95] @ plain)"
    if src: "32 \<le> length src"
  proof -
    have ls: "length (take 16 src) = 16" and li: "length (take 16 (drop 16 src)) = 16"
      using src by simp_all
    show ?thesis
      unfolding encrypt_result [OF src] m [symmetric]
      using decrypt_unpadded_encrypted [OF ls li] by blast
  qed
  show "(\<exists>p. decrypt self blob = Inr p) = (take 7 u = [95, 95, 83, 76, 69, 95, 95])"
    if "decrypt_unpadded self blob = Inr u"
    using that unfolding m [symmetric]
    by (simp add: decrypt_via_unpadded startswith_def length_MAGIC_HEADER)
qed

theorem magic_header_SLE_witness:
  "32 \<le> length (replicate 32 (0::byte))
   \<and> (\<exists>blob src'.
         encrypt \<lparr>password = bytes_literal ''correct-horse'', backend = DefaultBackend\<rparr>
           (bytes_literal ''top secret'') (replicate 32 0) = Inr (blob, src')
         \<and> decrypt_unpadded
             \<lparr>password = bytes_literal ''correct-horse'', backend = DefaultBackend\<rparr> blob
           = Inr ([95, 95, 83, 76, 69, 95, 95] @ bytes_literal ''top secret''))
   \<and> decrypt_unpadded \<lparr>password = bytes_literal ''correct-horse'', backend = DefaultBackend\<rparr>
      (replicate 16 1 @ replicate 16 2 @ encryptor_update
         \<lparr> cipher_key = pbkdf2_hmac SHA256 (bytes_literal ''correct-horse'') (replicate 16 1)
             100000 32,
           cipher_iv = replicate 16 2 \<rparr> (pkcs7_pad (bytes_literal ''top secret'')))
     = Inr (bytes_literal ''top secret'')
   \<and> (\<exists>p. decrypt \<lparr>password = bytes_literal ''correct-horse'', backend = DefaultBackend\<rparr>
      (replicate 16 1 @ replicate 16 2 @ encryptor_update
         \<lparr> cipher_key = pbkdf2_hmac SHA256 (bytes_literal ''correct-horse'') (replicate 16 1)
             100000 32,
           cipher_iv = replicate 16 2 \<rparr> (pkcs7_pad (bytes_literal ''top secret''))) = Inr p)
     = (take 7 (bytes_literal ''top secret'') = [95, 95, 83, 76, 69, 95, 95])"
proof -
  let ?self = "\<lparr>password = bytes_literal ''correct-horse'', backend = DefaultBackend\<rparr>"
  let ?blob = "replicate 16 1 @ replicate 16 2 @ encryptor_update
         \<lparr> cipher_key = pbkdf2_hmac SHA256 (bytes_literal ''correct-horse'') (replicate 16 1)
             100000 32,
           cipher_iv = replicate 16 2 \<rparr> (pkcs7_pad (bytes_literal ''top secret''))"
  have src: "32 \<le> length (replicate 32 (0::byte))"
    by simp
  have un: "decrypt_unpadded ?self ?blob = Inr (bytes_literal ''top secret'')"
    using decrypt_unpadded_encrypted
      [of "replicate 16 1" "replicate 16 2" ?self "bytes_literal ''top secret''"]
    by simp
  from magic_header_SLE
      [of "replicate 32 0" ?self "bytes_literal ''top secret''" ?blob
          "bytes_literal ''top secret''"] src un
  show ?thesis
    by blast
qed


end
